theory Spec2Isabelle
  imports Complex_Main
begin

section \<open>Python values\<close>

text \<open>
  The loader and the key builder work on untyped Python values (\<open>Any\<close>): the cells of a
  CSV row as pandas delivers them, and the arguments of \<open>build_flight_id\<close>. A float is
  kept by its exact value; \<open>FFin q\<close> is the finite double whose value is \<open>q\<close> (not every
  rational is a double, so a statement about every \<open>FFin q\<close> covers every finite double),
  \<open>FNegZero\<close> is \<open>-0.0\<close>, \<open>FInf True\<close> is \<open>+inf\<close>.
\<close>

datatype pyfloat = FNaN | FInf bool | FNegZero | FFin rat

datatype pydate = Date nat nat nat

datatype pyval =
    VNone
  | VBool bool
  | VInt int
  | VFloat pyfloat
  | VStr string
  | VDate pydate

datatype pyexn =
    ValueError string
  | TypeError string
  | OverflowError string
  | AttributeError string
  | ClientError string

text \<open>
  Three operations of the Python runtime depend on the binary format of doubles and are
  taken as parameters: the text of a float (\<open>str(f)\<close>), the float parser on strings
  (\<open>float(s)\<close>, \<open>None\<close> standing for its \<open>ValueError\<close>), and the rounding of an integer
  beyond \<open>2^53\<close> to a double (\<open>None\<close> standing for \<open>OverflowError\<close>). Every theorem
  below holds for every choice of them.
\<close>

record builtins =
  float_repr :: "pyfloat \<Rightarrow> string"
  float_of_str :: "string \<Rightarrow> pyfloat option"
  float_of_bigint :: "int \<Rightarrow> pyfloat option"

subsection \<open>Strings\<close>

text \<open>
  A Python \<open>str\<close> is modelled by a \<open>string\<close> of ASCII characters; \<open>str.isspace\<close>,
  \<open>str.strip\<close> and \<open>str.upper\<close> are written out on that range (whitespace is
  \<open>\t \n \v \f \r\<close>, the separators \<open>0x1c..0x1f\<close> and the blank; \<open>upper\<close> maps
  \<open>a..z\<close> to \<open>A..Z\<close>).
\<close>

definition ascii :: "string \<Rightarrow> bool" where
  "ascii s = list_all (\<lambda>c. (of_char c :: nat) < 128) s"

definition isspace :: "char \<Rightarrow> bool" where
  "isspace c = (let n = (of_char c :: nat) in (9 \<le> n \<and> n \<le> 13) \<or> (28 \<le> n \<and> n \<le> 32))"

definition islower :: "char \<Rightarrow> bool" where
  "islower c = (let n = (of_char c :: nat) in 97 \<le> n \<and> n \<le> 122)"

definition isdigit :: "char \<Rightarrow> bool" where
  "isdigit c = (let n = (of_char c :: nat) in 48 \<le> n \<and> n \<le> 57)"

definition upper_char :: "char \<Rightarrow> char" where
  "upper_char c = (if islower c then char_of ((of_char c :: nat) - 32) else c)"

definition str_strip :: "string \<Rightarrow> string" where
  "str_strip s = rev (dropWhile isspace (rev (dropWhile isspace s)))"

definition str_upper :: "string \<Rightarrow> string" where
  "str_upper s = map upper_char s"

definition digit_char :: "nat \<Rightarrow> char" where
  "digit_char d = char_of (48 + d)"

function digits :: "nat \<Rightarrow> string" where
  "digits n = (if n < 10 then [digit_char n] else digits (n div 10) @ [digit_char (n mod 10)])"
  by pat_completeness auto
termination
  by (relation "measure id") auto

declare digits.simps [simp del]

definition zfill :: "nat \<Rightarrow> string \<Rightarrow> string" where
  "zfill w s = replicate (w - length s) (CHR ''0'') @ s"

definition int_str :: "int \<Rightarrow> string" where
  "int_str n = (if n < 0 then ''-'' @ digits (nat (- n)) else digits (nat n))"

text \<open>The format specification \<open>04d\<close>: the sign counts in the width of four.\<close>

definition fmt_04d :: "int \<Rightarrow> string" where
  "fmt_04d n = (if n < 0 then ''-'' @ zfill 3 (digits (nat (- n))) else zfill 4 (digits (nat n)))"

text \<open>\<open>date.isoformat()\<close>: \<open>YYYY-MM-DD\<close>.\<close>

fun isoformat :: "pydate \<Rightarrow> string" where
  "isoformat (Date y m d) = zfill 4 (digits y) @ ''-'' @ zfill 2 (digits m) @ ''-'' @ zfill 2 (digits d)"

subsection \<open>Builtins on values\<close>

fun py_str :: "builtins \<Rightarrow> pyval \<Rightarrow> string" where
  "py_str B VNone = ''None''"
| "py_str B (VBool b) = (if b then ''True'' else ''False'')"
| "py_str B (VInt n) = int_str n"
| "py_str B (VFloat f) = float_repr B f"
| "py_str B (VStr s) = s"
| "py_str B (VDate d) = isoformat d"

fun truthy :: "pyval \<Rightarrow> bool" where
  "truthy VNone = False"
| "truthy (VBool b) = b"
| "truthy (VInt n) = (n \<noteq> 0)"
| "truthy (VFloat f) = (f \<noteq> FFin 0 \<and> f \<noteq> FNegZero)"
| "truthy (VStr s) = (s \<noteq> [])"
| "truthy (VDate d) = True"

text \<open>\<open>a or b\<close>.\<close>

definition py_or :: "pyval \<Rightarrow> pyval \<Rightarrow> pyval" where
  "py_or a b = (if truthy a then a else b)"

text \<open>\<open>float(x)\<close>; an integer up to \<open>2^53\<close> in magnitude is a double exactly.\<close>

fun py_float :: "builtins \<Rightarrow> pyval \<Rightarrow> pyexn + pyfloat" where
  "py_float B VNone = Inl (TypeError ''float() argument must be a string or a real number'')"
| "py_float B (VBool b) = Inr (FFin (if b then 1 else 0))"
| "py_float B (VInt n) =
     (if \<bar>n\<bar> \<le> 2 ^ 53 then Inr (FFin (of_int n))
      else (case float_of_bigint B n of
              None \<Rightarrow> Inl (OverflowError ''int too large to convert to float'')
            | Some f \<Rightarrow> Inr f))"
| "py_float B (VFloat f) = Inr f"
| "py_float B (VStr s) =
     (case float_of_str B s of
        None \<Rightarrow> Inl (ValueError ''could not convert string to float'')
      | Some f \<Rightarrow> Inr f)"
| "py_float B (VDate d) = Inl (TypeError ''float() argument must be a string or a real number'')"

text \<open>\<open>int(f)\<close> on a float truncates toward zero.\<close>

fun py_int_of_float :: "pyfloat \<Rightarrow> pyexn + int" where
  "py_int_of_float FNaN = Inl (ValueError ''cannot convert float NaN to integer'')"
| "py_int_of_float (FInf s) = Inl (OverflowError ''cannot convert float infinity to integer'')"
| "py_int_of_float FNegZero = Inr 0"
| "py_int_of_float (FFin q) = Inr (if 0 \<le> q then \<lfloor>q\<rfloor> else \<lceil>q\<rceil>)"

section \<open>The key builder (\<open>build_flight_id\<close>)\<close>

text \<open>
  The first parameter is either a mapping (call style 1) or the date (call style 2).
  \<open>row.get(k)\<close> is \<open>None\<close> on a key the mapping lacks.
\<close>

datatype pyarg = Row "string \<Rightarrow> pyval option" | Val pyval

definition row_get :: "(string \<Rightarrow> pyval option) \<Rightarrow> string \<Rightarrow> pyval" where
  "row_get row k = (case row k of None \<Rightarrow> VNone | Some v \<Rightarrow> v)"

definition build_flight_id ::
  "builtins \<Rightarrow> pyarg \<Rightarrow> pyval \<Rightarrow> pyval \<Rightarrow> pyval \<Rightarrow> pyval \<Rightarrow> pyexn + string" where
  "build_flight_id B fl_date carrier origin dest crs_dep_time =
     (let (fl_date_val, carrier_val, origin_val, dest_val, crs_val) =
        (case fl_date of
           Row row \<Rightarrow>
             (py_or (row_get row ''fl_date'') (py_or (row_get row ''FL_DATE'') (row_get row ''date'')),
              py_or (row_get row ''carrier'') (py_or (row_get row ''op_carrier'') (row_get row ''OP_CARRIER'')),
              py_or (row_get row ''origin'') (row_get row ''ORIGIN''),
              py_or (row_get row ''dest'') (row_get row ''DEST''),
              py_or (row_get row ''crs_dep_time'') (row_get row ''CRS_DEP_TIME''))
         | Val v \<Rightarrow> (v, carrier, origin, dest, crs_dep_time))
      in
        if fl_date_val = VNone \<or> carrier_val = VNone \<or> origin_val = VNone \<or> dest_val = VNone
           \<or> crs_val = VNone
        then Inl (ValueError ''Missing fields for build_flight_id'')
        else
          (let fl_date_str = (case fl_date_val of VDate d \<Rightarrow> isoformat d
                              | _ \<Rightarrow> str_strip (py_str B fl_date_val));
               carrier_str = str_upper (str_strip (py_str B carrier_val));
               origin_str = str_upper (str_strip (py_str B origin_val));
               dest_str = str_upper (str_strip (py_str B dest_val))
           in (case py_float B crs_val of
                 Inl e \<Rightarrow> Inl e
               | Inr f \<Rightarrow>
                   (case py_int_of_float f of
                      Inl e \<Rightarrow> Inl e
                    | Inr crs_int \<Rightarrow>
                        Inr (fl_date_str @ ''|'' @ carrier_str @ ''|'' @ origin_str @ ''|''
                             @ dest_str @ ''-'' @ fmt_04d crs_int)))))"

text \<open>The number a string of decimal digits denotes.\<close>

definition digits_val :: "string \<Rightarrow> nat" where
  "digits_val s = foldl (\<lambda>a c. 10 * a + ((of_char c :: nat) - 48)) 0 s"

text \<open>A code in normal form: upper-cased and without surrounding whitespace.\<close>

definition normal_code :: "string \<Rightarrow> bool" where
  "normal_code s = (str_upper s = s \<and> str_strip s = s)"

text \<open>Two strings that differ by letter case only.\<close>

definition caseless_eq :: "string \<Rightarrow> string \<Rightarrow> bool" where
  "caseless_eq a b = list_all2 (\<lambda>x y. upper_char x = upper_char y) a b"

section \<open>The record normaliser (\<open>pick\<close>, \<open>to_int\<close>, \<open>to_float\<close>)\<close>



text \<open>\<open>try: return e  except Exception: return None\<close>.\<close>

definition try_or_none :: "pyexn + 'a \<Rightarrow> 'a option" where
  "try_or_none r = (case r of Inl e \<Rightarrow> None | Inr v \<Rightarrow> Some v)"

definition to_int :: "builtins \<Rightarrow> pyval \<Rightarrow> int option" where
  "to_int B x =
     (if x = VNone \<or> x = VFloat FNaN then None
      else try_or_none (case py_float B x of Inl e \<Rightarrow> Inl e | Inr f \<Rightarrow> py_int_of_float f))"

definition to_float :: "builtins \<Rightarrow> pyval \<Rightarrow> pyfloat option" where
  "to_float B x =
     (if x = VNone \<or> x = VFloat FNaN then None
      else try_or_none (py_float B x))"



section \<open>The batch loader (\<open>main\<close> of the clean load)\<close>


subsection \<open>The store and the upsert statement\<close>

text \<open>
  The store holds the nodes labelled \<open>CleanFlight\<close>, one per \<open>flight_id\<close> (the
  uniqueness constraint the loader creates first), each with its labels and properties.
  The statement is
  \<^verbatim>\<open>UNWIND $rows AS row  MERGE (f:CleanFlight {flight_id: row.flight_id})  SET f += row  SET f:Flight\<close>.
  \<open>SET f += row\<close> writes every key of the row and removes a property set to null. Only
  string keys are modelled, the one kind the loader builds: a row whose \<open>flight_id\<close> is
  null is refused by the store, and the model refuses every other non-string key too.
\<close>

record node =
  labels :: "string set"
  props :: "string \<Rightarrow> pyval option"

type_synonym store = "string \<Rightarrow> node option"

definition set_props :: "(string \<Rightarrow> pyval option) \<Rightarrow> (string \<times> pyval) list \<Rightarrow> (string \<Rightarrow> pyval option)" where
  "set_props p row =
     (\<lambda>k. case map_of row k of
             None \<Rightarrow> p k
           | Some v \<Rightarrow> if v = VNone then None else Some v)"

text \<open>\<open>row.flight_id\<close>, when it is a string.\<close>

definition row_key :: "(string \<times> pyval) list \<Rightarrow> string option" where
  "row_key row = (case map_of row ''flight_id'' of Some (VStr fid) \<Rightarrow> Some fid | _ \<Rightarrow> None)"

text \<open>\<open>MERGE\<close>: the node with that \<open>flight_id\<close>, created when there is none.\<close>

definition match_or_create :: "store \<Rightarrow> string \<Rightarrow> node" where
  "match_or_create st fid =
     (case st fid of
        None \<Rightarrow> \<lparr>labels = {''CleanFlight''}, props = [''flight_id'' \<mapsto> VStr fid]\<rparr>
      | Some n \<Rightarrow> n)"

text \<open>\<open>SET f += row  SET f:Flight\<close>.\<close>

definition write_node :: "node \<Rightarrow> (string \<times> pyval) list \<Rightarrow> node" where
  "write_node f row = \<lparr>labels = insert ''Flight'' (labels f), props = set_props (props f) row\<rparr>"

definition merge_row :: "store \<Rightarrow> (string \<times> pyval) list \<Rightarrow> pyexn + store" where
  "merge_row st row =
     (case row_key row of
        Some fid \<Rightarrow> Inr (st(fid \<mapsto> write_node (match_or_create st fid) row))
      | None \<Rightarrow> Inl (ClientError ''Cannot merge node using a flight_id that is not a string''))"

fun run_cypher :: "store \<Rightarrow> (string \<times> pyval) list list \<Rightarrow> pyexn + store" where
  "run_cypher st [] = Inr st"
| "run_cypher st (row # rows) =
     (case merge_row st row of Inl e \<Rightarrow> Inl e | Inr st' \<Rightarrow> run_cypher st' rows)"

subsection \<open>The loop\<close>

record load_state =
  store :: store
  total_inserted :: nat






section \<open>The validation model (\<open>CleanFlight\<close>)\<close>

text \<open>\<open>isinstance(v, int)\<close>: a \<open>bool\<close> is an \<open>int\<close> in Python.\<close>

definition as_int :: "pyval \<Rightarrow> int option" where
  "as_int v = (case v of VInt n \<Rightarrow> Some n | VBool b \<Rightarrow> Some (if b then 1 else 0) | _ \<Rightarrow> None)"

definition validate_crs_dep_time :: "pyval \<Rightarrow> pyexn + pyval" where
  "validate_crs_dep_time v =
     (case as_int v of
        None \<Rightarrow> Inl (ValueError ''crs_dep_time must be an integer HHMM (e.g., 930, 1430)'')
      | Some n \<Rightarrow>
          if n < 0 \<or> n > 2359 then Inl (ValueError ''crs_dep_time must be between 0 and 2359'')
          else if n mod 100 \<ge> 60 then Inl (ValueError ''crs_dep_time minutes must be < 60'')
          else Inr v)"

text \<open>
  The validator of \<open>carrier\<close>, \<open>origin\<close> and \<open>dest\<close> (the Pydantic 2 branch; on a string
  the Pydantic 1 branch computes the same). On a value without \<open>strip\<close> the attribute
  access fails.
\<close>

definition normalize_codes :: "pyval \<Rightarrow> pyexn + pyval" where
  "normalize_codes v =
     (case v of
        VNone \<Rightarrow> Inl (ValueError ''code cannot be null'')
      | VStr s \<Rightarrow>
          (let v' = str_upper (str_strip s) in
             if length v' = 0 then Inl (ValueError ''code cannot be empty'') else Inr (VStr v'))
      | _ \<Rightarrow> Inl (AttributeError ''object has no attribute strip''))"

record CleanFlight =
  flight_id :: string
  fl_date :: pydate
  carrier :: string
  origin :: string
  dest :: string
  crs_dep_time :: int
  dep_delay :: "pyfloat option"
  arr_delay :: "pyfloat option"
  cancelled :: int
  diverted :: int
  distance :: "pyfloat option"

definition errs :: "pyexn + 'a \<Rightarrow> pyexn list" where
  "errs r = (case r of Inl e \<Rightarrow> [e] | Inr v \<Rightarrow> [])"

text \<open>
  Construction of a \<open>CleanFlight\<close> from fields of the declared types: the field
  validators run in the order of the fields, every failure is collected, and the record
  holds what the validators returned.
\<close>

definition CleanFlight_validate :: "CleanFlight \<Rightarrow> pyexn list + CleanFlight" where
  "CleanFlight_validate c =
     (let r1 = normalize_codes (VStr (carrier c));
          r2 = normalize_codes (VStr (origin c));
          r3 = normalize_codes (VStr (dest c));
          r4 = validate_crs_dep_time (VInt (crs_dep_time c))
      in (case (r1, r2, r3, r4) of
            (Inr (VStr ca), Inr (VStr og), Inr (VStr de), Inr (VInt t)) \<Rightarrow>
              Inr (c\<lparr>carrier := ca, origin := og, dest := de, crs_dep_time := t\<rparr>)
          | _ \<Rightarrow> Inl (errs r1 @ errs r2 @ errs r3 @ errs r4)))"

section \<open>Notions used in the statements\<close>









text \<open>The upsert of one row whose key is a string, and of a list of such rows.\<close>

definition upsert :: "store \<Rightarrow> (string \<times> pyval) list \<Rightarrow> store" where
  "upsert st row = (case row_key row of None \<Rightarrow> st
                    | Some fid \<Rightarrow> st(fid \<mapsto> write_node (match_or_create st fid) row))"

definition keyed :: "(string \<times> pyval) list \<Rightarrow> bool" where
  "keyed row = (row_key row \<noteq> None)"


section \<open>Strings: case and whitespace\<close>

lemma of_char_upper_char:
  "islower c \<Longrightarrow> (of_char (upper_char c) :: nat) = of_char c - 32"
  by (auto simp: upper_char_def islower_def Let_def)

lemma isspace_upper_char [simp]: "isspace (upper_char c) = isspace c"
proof (cases "islower c")
  case True
  then show ?thesis
    using of_char_upper_char [OF True]
    by (auto simp: isspace_def islower_def Let_def)
next
  case False
  then show ?thesis by (simp add: upper_char_def)
qed

lemma islower_upper_char [simp]: "\<not> islower (upper_char c)"
proof (cases "islower c")
  case True
  then show ?thesis
    using of_char_upper_char [OF True]
    by (auto simp: islower_def Let_def)
next
  case False
  then show ?thesis by (simp add: upper_char_def)
qed

lemma upper_char_idem [simp]: "upper_char (upper_char c) = upper_char c"
  using islower_upper_char [of c] by (subst upper_char_def) simp

lemma str_upper_idem: "str_upper (str_upper s) = str_upper s"
  by (simp add: str_upper_def)

lemma str_upper_strip: "str_upper (str_strip s) = str_strip (str_upper s)"
  by (simp add: str_upper_def str_strip_def dropWhile_map rev_map comp_def)

lemma dropWhile_rev_dropWhile:
  "dropWhile P (rev (dropWhile P (rev (dropWhile P s)))) = rev (dropWhile P (rev (dropWhile P s)))"
proof (cases "dropWhile P s")
  case Nil
  show ?thesis unfolding Nil by simp
next
  case (Cons x xs)
  then have nx: "\<not> P x" by (metis hd_dropWhile list.sel(1) list.distinct(1))
  have "rev (dropWhile P (rev (x # xs))) \<noteq> []" using nx by (simp add: dropWhile_append)
  moreover have "hd (rev (dropWhile P (rev (x # xs)))) = x"
    using nx by (simp add: dropWhile_append hd_append)
  ultimately show ?thesis using nx Cons
    by (metis dropWhile_eq_self_iff)
qed

lemma str_strip_idem: "str_strip (str_strip s) = str_strip s"
proof -
  let ?t = "rev (dropWhile isspace (rev (dropWhile isspace s)))"
  have a: "dropWhile isspace ?t = ?t" by (rule dropWhile_rev_dropWhile)
  have b: "dropWhile isspace (rev ?t) = rev ?t"
    by (metis dropWhile_idem rev_rev_ident)
  show ?thesis unfolding str_strip_def a b by simp
qed

lemma str_strip_around:
  assumes "list_all isspace p" "list_all isspace q"
  shows "str_strip (p @ s @ q) = str_strip s"
proof -
  have p: "\<forall>x\<in>set p. isspace x" and q: "\<forall>x\<in>set q. isspace x"
    using assms by (simp_all add: list_all_iff)
  have 1: "dropWhile isspace (p @ s @ q) = dropWhile isspace (s @ q)"
    using p by (simp add: dropWhile_append)
  show ?thesis
  proof (cases "\<forall>x\<in>set s. isspace x")
    case True
    have a: "dropWhile isspace (s @ q) = []" using True q by simp
    have b: "dropWhile isspace s = []" using True by simp
    show ?thesis by (simp only: str_strip_def 1 a b)
  next
    case False
    then have a: "dropWhile isspace (s @ q) = dropWhile isspace s @ q"
      by (auto simp: dropWhile_append)
    have b: "dropWhile isspace (rev q @ rev (dropWhile isspace s))
             = dropWhile isspace (rev (dropWhile isspace s))"
      using q by (simp add: dropWhile_append)
    show ?thesis by (simp add: str_strip_def 1 a b)
  qed
qed

lemma normal_code_upper_strip: "normal_code (str_upper (str_strip s))"
  by (simp add: normal_code_def str_upper_idem str_upper_strip [symmetric] str_strip_idem)

lemma caseless_eq_upper: "caseless_eq a b \<Longrightarrow> str_upper a = str_upper b"
  unfolding caseless_eq_def str_upper_def
  by (induction a b rule: list_all2_induct) simp_all

lemma code_variant:
  assumes "list_all isspace p" "list_all isspace q" "list_all isspace p'" "list_all isspace q'"
    and "caseless_eq a b"
  shows "str_upper (str_strip (p @ a @ q)) = str_upper (str_strip (p' @ b @ q'))"
  using assms by (simp add: str_strip_around str_upper_strip caseless_eq_upper)

section \<open>Decimal digits\<close>

lemma isdigit_digit_char: "d < 10 \<Longrightarrow> isdigit (digit_char d)"
  by (simp add: isdigit_def digit_char_def)

lemma digits_all_digit: "list_all isdigit (digits n)"
proof (induction n rule: digits.induct)
  case (1 n)
  show ?case
  proof (cases "n < 10")
    case True
    then show ?thesis by (subst digits.simps) (simp add: isdigit_digit_char)
  next
    case False
    then show ?thesis using 1 by (subst digits.simps) (simp add: isdigit_digit_char)
  qed
qed

lemma length_digits: "0 < k \<Longrightarrow> n < 10 ^ k \<Longrightarrow> length (digits n) \<le> k"
proof (induction k arbitrary: n)
  case 0
  then show ?case by simp
next
  case (Suc k)
  show ?case
  proof (cases "n < 10")
    case True
    then show ?thesis by (subst digits.simps) simp
  next
    case False
    then have k: "0 < k" using Suc.prems by (cases k) auto
    have "n div 10 < 10 ^ k" using Suc.prems by (simp add: less_mult_imp_div_less mult.commute)
    then have "length (digits (n div 10)) \<le> k" using Suc.IH k by simp
    then show ?thesis using False by (subst digits.simps) simp
  qed
qed

lemma digits_val_snoc: "digits_val (s @ [c]) = 10 * digits_val s + ((of_char c :: nat) - 48)"
  by (simp add: digits_val_def)

lemma digits_val_digits: "digits_val (digits n) = n"
proof (induction n rule: digits.induct)
  case (1 n)
  show ?case
  proof (cases "n < 10")
    case True
    then show ?thesis by (subst digits.simps) (simp add: digits_val_def digit_char_def)
  next
    case False
    then show ?thesis using 1
      by (subst digits.simps) (simp add: digits_val_snoc digit_char_def)
  qed
qed

lemma digits_val_zeros: "digits_val (replicate k (CHR ''0'') @ s) = digits_val s"
proof -
  have "foldl (\<lambda>a c. 10 * a + ((of_char c :: nat) - 48)) 0 (replicate k (CHR ''0'')) = 0"
    by (induction k) simp_all
  then show ?thesis by (simp add: digits_val_def)
qed

lemma fmt_04d_four_digits:
  assumes "0 \<le> t" "t \<le> 9999"
  shows "length (fmt_04d t) = 4" "list_all isdigit (fmt_04d t)" "digits_val (fmt_04d t) = nat t"
proof -
  have "nat t < 10 ^ 4" using assms by simp
  then have l: "length (digits (nat t)) \<le> 4" by (intro length_digits) simp_all
  have f: "fmt_04d t = replicate (4 - length (digits (nat t))) (CHR ''0'') @ digits (nat t)"
    using assms by (simp add: fmt_04d_def zfill_def)
  show "length (fmt_04d t) = 4" using l by (simp add: f)
  have z: "isdigit (CHR ''0'')" by (simp add: isdigit_def)
  show "list_all isdigit (fmt_04d t)"
    using digits_all_digit [of "nat t"] z by (auto simp: f list_all_iff)
  show "digits_val (fmt_04d t) = nat t" by (simp only: f digits_val_zeros digits_val_digits)
qed

section \<open>The key builder: format and invariance\<close>

text \<open>
  Claim C2. Called with a date (a string \<open>ds\<close> or a date object \<open>dd\<close>), three codes
  and a scheduled time \<open>t\<close> that is an integer of \<open>0..2359\<close>, the key builder returns
  \<open>DATE|CARRIER|ORIGIN|DEST-TTTT\<close>: the date is the ISO text of the date object or the
  trimmed string, each code is the trimmed and upper-cased argument (a fixed point of
  both operations), and \<open>TTTT\<close> is exactly four decimal digits that denote \<open>t\<close>. The
  call \<open>build_flight_id("2020-01-01", "AA", "EWR", "JFK", 5)\<close> returns a key that ends
  with \<open>-0005\<close>.
\<close>

theorem build_flight_id_format:
  assumes "0 \<le> t" "t \<le> 2359" "dv = VStr ds \<or> dv = VDate dd"
    and "ascii ds" "ascii c" "ascii og" "ascii de"
  shows "build_flight_id B (Val dv) (VStr c) (VStr og) (VStr de) (VInt t)
           = Inr ((if dv = VDate dd then isoformat dd else str_strip ds) @ ''|''
                  @ str_upper (str_strip c) @ ''|'' @ str_upper (str_strip og) @ ''|''
                  @ str_upper (str_strip de) @ ''-'' @ fmt_04d t)
         \<and> length (fmt_04d t) = 4 \<and> list_all isdigit (fmt_04d t) \<and> digits_val (fmt_04d t) = nat t
         \<and> normal_code (str_upper (str_strip c)) \<and> normal_code (str_upper (str_strip og))
         \<and> normal_code (str_upper (str_strip de))
         \<and> build_flight_id B (Val (VStr ''2020-01-01'')) (VStr ''AA'') (VStr ''EWR'') (VStr ''JFK'') (VInt 5)
           = Inr ''2020-01-01|AA|EWR|JFK-0005''"
proof -
  have small: "\<bar>t\<bar> \<le> 2 ^ 53" using assms(1,2) by simp
  have fl: "py_float B (VInt t) = Inr (FFin (of_int t))" using small by simp
  have tr: "py_int_of_float (FFin (of_int t)) = Inr t" using assms(1) by simp
  have key: "build_flight_id B (Val dv) (VStr c) (VStr og) (VStr de) (VInt t)
           = Inr ((if dv = VDate dd then isoformat dd else str_strip ds) @ ''|''
                  @ str_upper (str_strip c) @ ''|'' @ str_upper (str_strip og) @ ''|''
                  @ str_upper (str_strip de) @ ''-'' @ fmt_04d t)"
    using assms(3)
    by (auto simp add: build_flight_id_def fl tr simp del: py_float.simps py_int_of_float.simps)
  have ex: "build_flight_id B (Val (VStr ''2020-01-01'')) (VStr ''AA'') (VStr ''EWR'') (VStr ''JFK'') (VInt 5)
           = Inr ''2020-01-01|AA|EWR|JFK-0005''"
    by code_simp
  have "t \<le> 9999" using assms(2) by simp
  note fmt = fmt_04d_four_digits [OF assms(1) this]
  show ?thesis
    using key ex fmt normal_code_upper_strip by simp
qed

theorem build_flight_id_format_witness:
  "\<forall>B. build_flight_id B (Val (VDate (Date 2020 11 25))) (VStr '' aa '') (VStr ''ewr'') (VStr ''Jfk '') (VInt 930)
        = Inr ''2020-11-25|AA|EWR|JFK-0930''
      \<and> length (fmt_04d 930) = 4 \<and> fmt_04d 930 = ''0930''"
proof -
  have a: "ascii []" "ascii '' aa ''" "ascii ''ewr''" "ascii ''Jfk ''" by code_simp+
  have e: "str_upper (str_strip '' aa '') = ''AA''" "str_upper (str_strip ''ewr'') = ''EWR''"
    "str_upper (str_strip ''Jfk '') = ''JFK''" "fmt_04d 930 = ''0930''"
    "isoformat (Date 2020 11 25) = ''2020-11-25''" by code_simp+
  show ?thesis
    using build_flight_id_format [of 930 "VDate (Date 2020 11 25)" "[]" "Date 2020 11 25" "'' aa ''" "''ewr''" "''Jfk ''"] a
    by (simp add: e del: isoformat.simps)
qed

text \<open>
  Claim C7. The key builder does not see the letter case or the surrounding whitespace of
  the carrier, origin and destination arguments: two positional calls whose three codes
  are, pairwise, the same letters up to case (\<open>caseless_eq\<close>) wrapped in any
  whitespace return the same result, as \<open>" aa "\<close> and \<open>"AA"\<close> do.
\<close>

theorem build_flight_id_case_whitespace_invariant:
  assumes "list_all isspace p1" "list_all isspace q1" "list_all isspace p1'" "list_all isspace q1'"
    and "list_all isspace p2" "list_all isspace q2" "list_all isspace p2'" "list_all isspace q2'"
    and "list_all isspace p3" "list_all isspace q3" "list_all isspace p3'" "list_all isspace q3'"
    and "caseless_eq a1 b1" "caseless_eq a2 b2" "caseless_eq a3 b3"
    and "ascii a1" "ascii b1" "ascii a2" "ascii b2" "ascii a3" "ascii b3"
  shows "build_flight_id B (Val dv) (VStr (p1 @ a1 @ q1)) (VStr (p2 @ a2 @ q2)) (VStr (p3 @ a3 @ q3)) t
       = build_flight_id B (Val dv) (VStr (p1' @ b1 @ q1')) (VStr (p2' @ b2 @ q2')) (VStr (p3' @ b3 @ q3')) t"
proof -
  have c1: "str_upper (str_strip (p1 @ a1 @ q1)) = str_upper (str_strip (p1' @ b1 @ q1'))"
    using assms by (intro code_variant)
  have c2: "str_upper (str_strip (p2 @ a2 @ q2)) = str_upper (str_strip (p2' @ b2 @ q2'))"
    using assms by (intro code_variant)
  have c3: "str_upper (str_strip (p3 @ a3 @ q3)) = str_upper (str_strip (p3' @ b3 @ q3'))"
    using assms by (intro code_variant)
  show ?thesis
    by (simp add: build_flight_id_def c1 c2 c3 del: py_float.simps py_int_of_float.simps)
qed

theorem build_flight_id_case_whitespace_invariant_witness:
  "\<forall>B. build_flight_id B (Val (VStr ''2020-01-01'')) (VStr '' aa '') (VStr ''ewr '') (VStr ''jFk'') (VInt 5)
      = build_flight_id B (Val (VStr ''2020-01-01'')) (VStr ''AA'') (VStr ''EWR'') (VStr ''JFK'') (VInt 5)"
proof -
  have w: "list_all isspace '' ''" "list_all isspace []" by code_simp+
  have c: "caseless_eq ''aa'' ''AA''" "caseless_eq ''ewr'' ''EWR''" "caseless_eq ''jFk'' ''JFK''"
    by code_simp+
  have a: "ascii ''aa''" "ascii ''AA''" "ascii ''ewr''" "ascii ''EWR''" "ascii ''jFk''" "ascii ''JFK''"
    by code_simp+
  show ?thesis
    using build_flight_id_case_whitespace_invariant
      [of "'' ''" "'' ''" "[]" "[]" "[]" "'' ''" "[]" "[]" "[]" "[]" "[]" "[]"
          "''aa''" "''AA''" "''ewr''" "''EWR''" "''jFk''" "''JFK''", OF w(1) w(1) w(2) w(2) w(2) w(1) w(2) w(2) w(2) w(2) w(2) w(2) c a]
    by simp
qed

section \<open>The key builder: missing fields\<close>

lemma py_float_error_not_missing:
  "py_float B t = Inl e \<Longrightarrow> e \<noteq> ValueError ''Missing fields for build_flight_id''"
  by (cases t) (auto split: if_splits option.splits)

lemma py_int_of_float_error_not_missing:
  "py_int_of_float f = Inl e \<Longrightarrow> e \<noteq> ValueError ''Missing fields for build_flight_id''"
  by (cases f) auto


text \<open>
  Claim C4. The key builder raises its missing-field error exactly when one of the five
  values is \<open>None\<close>, and returns a key when all five are present, a scheduled time of
  0 included. The positional call does so. The mapping call resolves each field with
  \<open>or\<close>, which treats a present \<open>0\<close> like an absent value: a row whose
  \<open>crs_dep_time\<close> is 0 raises the missing-field error, where the same row with 5
  returns a key.
\<close>

theorem build_flight_id_missing_fields:
  "(build_flight_id B (Val v) c og de t = Inl (ValueError ''Missing fields for build_flight_id'')
      \<longleftrightarrow> v = VNone \<or> c = VNone \<or> og = VNone \<or> de = VNone \<or> t = VNone)
   \<and> build_flight_id B (Val (VStr ''2020-01-01'')) (VStr ''AA'') (VStr ''EWR'') (VStr ''JFK'') (VInt 0)
       = Inr ''2020-01-01|AA|EWR|JFK-0000''
   \<and> build_flight_id B
        (Row [''fl_date'' \<mapsto> VStr ''2020-01-01'', ''carrier'' \<mapsto> VStr ''AA'', ''origin'' \<mapsto> VStr ''EWR'',
              ''dest'' \<mapsto> VStr ''JFK'', ''crs_dep_time'' \<mapsto> VInt 0]) VNone VNone VNone VNone
       = Inl (ValueError ''Missing fields for build_flight_id'')
   \<and> build_flight_id B
        (Row [''fl_date'' \<mapsto> VStr ''2020-01-01'', ''carrier'' \<mapsto> VStr ''AA'', ''origin'' \<mapsto> VStr ''EWR'',
              ''dest'' \<mapsto> VStr ''JFK'', ''crs_dep_time'' \<mapsto> VInt 5]) VNone VNone VNone VNone
       = Inr ''2020-01-01|AA|EWR|JFK-0005''"
proof -
  have 1: "build_flight_id B (Val v) c og de t = Inl (ValueError ''Missing fields for build_flight_id'')
      \<longleftrightarrow> v = VNone \<or> c = VNone \<or> og = VNone \<or> de = VNone \<or> t = VNone"
    using py_float_error_not_missing [of B t] py_int_of_float_error_not_missing
    by (auto simp add: build_flight_id_def simp del: py_float.simps py_int_of_float.simps
          split: sum.splits)
  have 2: "build_flight_id B (Val (VStr ''2020-01-01'')) (VStr ''AA'') (VStr ''EWR'') (VStr ''JFK'') (VInt 0)
       = Inr ''2020-01-01|AA|EWR|JFK-0000''" by code_simp
  have 3: "build_flight_id B
        (Row [''fl_date'' \<mapsto> VStr ''2020-01-01'', ''carrier'' \<mapsto> VStr ''AA'', ''origin'' \<mapsto> VStr ''EWR'',
              ''dest'' \<mapsto> VStr ''JFK'', ''crs_dep_time'' \<mapsto> VInt 0]) VNone VNone VNone VNone
       = Inl (ValueError ''Missing fields for build_flight_id'')" by code_simp
  have 4: "build_flight_id B
        (Row [''fl_date'' \<mapsto> VStr ''2020-01-01'', ''carrier'' \<mapsto> VStr ''AA'', ''origin'' \<mapsto> VStr ''EWR'',
              ''dest'' \<mapsto> VStr ''JFK'', ''crs_dep_time'' \<mapsto> VInt 5]) VNone VNone VNone VNone
       = Inr ''2020-01-01|AA|EWR|JFK-0005''" by code_simp
  show ?thesis using 1 2 3 4 by blast
qed

section \<open>The validation model\<close>





lemma normalize_codes_str:
  "normalize_codes (VStr s) =
     (if str_strip s = [] then Inl (ValueError ''code cannot be empty'')
      else Inr (VStr (str_upper (str_strip s))))"
  by (simp add: normalize_codes_def Let_def str_upper_def)

lemma normalize_codes_normal:
  "normal_code s \<Longrightarrow> s \<noteq> [] \<Longrightarrow> normalize_codes (VStr s) = Inr (VStr s)"
  by (simp add: normalize_codes_str normal_code_def)

lemma validate_time_valid:
  "0 \<le> t \<Longrightarrow> t \<le> 2359 \<Longrightarrow> t mod 100 < 60 \<Longrightarrow> validate_crs_dep_time (VInt t) = Inr (VInt t)"
  by (simp add: validate_crs_dep_time_def as_int_def)

lemma validate_time_Inr:
  "validate_crs_dep_time (VInt t) = Inr y \<Longrightarrow> y = VInt t \<and> 0 \<le> t \<and> t \<le> 2359 \<and> t mod 100 < 60"
  by (auto simp: validate_crs_dep_time_def as_int_def split: if_splits)

lemma CleanFlight_validate_normal:
  assumes "normal_code (carrier c)" "carrier c \<noteq> []" "normal_code (origin c)" "origin c \<noteq> []"
    "normal_code (dest c)" "dest c \<noteq> []" "0 \<le> crs_dep_time c" "crs_dep_time c \<le> 2359"
    "crs_dep_time c mod 100 < 60"
  shows "CleanFlight_validate c = Inr c"
  using assms by (simp add: CleanFlight_validate_def normalize_codes_normal validate_time_valid)

lemma CleanFlight_validate_Inr:
  assumes "CleanFlight_validate c = Inr c'"
  shows "c' = c\<lparr>carrier := str_upper (str_strip (carrier c)), origin := str_upper (str_strip (origin c)),
                 dest := str_upper (str_strip (dest c))\<rparr>
         \<and> str_strip (carrier c) \<noteq> [] \<and> str_strip (origin c) \<noteq> [] \<and> str_strip (dest c) \<noteq> []
         \<and> 0 \<le> crs_dep_time c \<and> crs_dep_time c \<le> 2359 \<and> crs_dep_time c mod 100 < 60"
proof -
  from assms obtain ca og de t where
    r: "normalize_codes (VStr (carrier c)) = Inr (VStr ca)"
       "normalize_codes (VStr (origin c)) = Inr (VStr og)"
       "normalize_codes (VStr (dest c)) = Inr (VStr de)"
       "validate_crs_dep_time (VInt (crs_dep_time c)) = Inr (VInt t)"
    and c': "c' = c\<lparr>carrier := ca, origin := og, dest := de, crs_dep_time := t\<rparr>"
    by (auto simp: CleanFlight_validate_def Let_def split: sum.splits pyval.splits)
  from r(1-3) have "ca = str_upper (str_strip (carrier c))" "str_strip (carrier c) \<noteq> []"
    "og = str_upper (str_strip (origin c))" "str_strip (origin c) \<noteq> []"
    "de = str_upper (str_strip (dest c))" "str_strip (dest c) \<noteq> []"
    by (auto simp: normalize_codes_str split: if_splits)
  moreover from validate_time_Inr [OF r(4)] have "t = crs_dep_time c" "0 \<le> crs_dep_time c"
    "crs_dep_time c \<le> 2359" "crs_dep_time c mod 100 < 60" by auto
  ultimately show ?thesis using c' by simp
qed

text \<open>
  Claim C8. Validation is idempotent: a record whose three codes are in normal form
  (upper-case, no surrounding whitespace, not empty) and whose \<open>crs_dep_time\<close> is valid
  is returned as it is, field for field; and the record \<open>c'\<close> that validation returns
  is in that form, so validating it again returns \<open>c'\<close>.
\<close>

theorem CleanFlight_validate_idempotent:
  assumes "ascii (carrier c)" "ascii (origin c)" "ascii (dest c)"
  shows "(normal_code (carrier c) \<and> carrier c \<noteq> [] \<and> normal_code (origin c) \<and> origin c \<noteq> []
          \<and> normal_code (dest c) \<and> dest c \<noteq> []
          \<and> 0 \<le> crs_dep_time c \<and> crs_dep_time c \<le> 2359 \<and> crs_dep_time c mod 100 < 60
          \<longrightarrow> CleanFlight_validate c = Inr c)
       \<and> (CleanFlight_validate c = Inr c' \<longrightarrow>
            CleanFlight_validate c' = Inr c'
            \<and> normal_code (carrier c') \<and> carrier c' \<noteq> [] \<and> normal_code (origin c') \<and> origin c' \<noteq> []
            \<and> normal_code (dest c') \<and> dest c' \<noteq> []
            \<and> 0 \<le> crs_dep_time c' \<and> crs_dep_time c' \<le> 2359 \<and> crs_dep_time c' mod 100 < 60)"
proof (intro conjI impI)
  assume "normal_code (carrier c) \<and> carrier c \<noteq> [] \<and> normal_code (origin c) \<and> origin c \<noteq> []
          \<and> normal_code (dest c) \<and> dest c \<noteq> []
          \<and> 0 \<le> crs_dep_time c \<and> crs_dep_time c \<le> 2359 \<and> crs_dep_time c mod 100 < 60"
  then show "CleanFlight_validate c = Inr c" by (intro CleanFlight_validate_normal) simp_all
next
  assume v: "CleanFlight_validate c = Inr c'"
  note f = CleanFlight_validate_Inr [OF v]
  have ne: "\<And>s. str_strip s \<noteq> [] \<Longrightarrow> str_upper (str_strip s) \<noteq> []"
    by (simp add: str_upper_def)
  have n: "normal_code (carrier c')" "carrier c' \<noteq> []" "normal_code (origin c')" "origin c' \<noteq> []"
    "normal_code (dest c')" "dest c' \<noteq> []"
    "0 \<le> crs_dep_time c'" "crs_dep_time c' \<le> 2359" "crs_dep_time c' mod 100 < 60"
    using f ne by (simp_all add: normal_code_upper_strip)
  then show "CleanFlight_validate c' = Inr c'" by (intro CleanFlight_validate_normal)
  show "normal_code (carrier c')" "carrier c' \<noteq> []" "normal_code (origin c')" "origin c' \<noteq> []"
    "normal_code (dest c')" "dest c' \<noteq> []"
    "0 \<le> crs_dep_time c'" "crs_dep_time c' \<le> 2359" "crs_dep_time c' mod 100 < 60"
    by (rule n)+
qed

theorem CleanFlight_validate_idempotent_witness:
  "CleanFlight_validate
     \<lparr>flight_id = ''x'', fl_date = Date 2020 1 1, carrier = '' aa '', origin = ''ewr'',
      dest = ''JFK'', crs_dep_time = 900, dep_delay = Some (FFin 5), arr_delay = None,
      cancelled = 0, diverted = 0, distance = None\<rparr>
   = Inr \<lparr>flight_id = ''x'', fl_date = Date 2020 1 1, carrier = ''AA'', origin = ''EWR'',
      dest = ''JFK'', crs_dep_time = 900, dep_delay = Some (FFin 5), arr_delay = None,
      cancelled = 0, diverted = 0, distance = None\<rparr>
   \<and> CleanFlight_validate
     \<lparr>flight_id = ''x'', fl_date = Date 2020 1 1, carrier = ''AA'', origin = ''EWR'',
      dest = ''JFK'', crs_dep_time = 900, dep_delay = Some (FFin 5), arr_delay = None,
      cancelled = 0, diverted = 0, distance = None\<rparr>
   = Inr \<lparr>flight_id = ''x'', fl_date = Date 2020 1 1, carrier = ''AA'', origin = ''EWR'',
      dest = ''JFK'', crs_dep_time = 900, dep_delay = Some (FFin 5), arr_delay = None,
      cancelled = 0, diverted = 0, distance = None\<rparr>"
proof -
  have a: "ascii '' aa ''" "ascii ''ewr''" "ascii ''JFK''" by code_simp+
  have v: "CleanFlight_validate
     \<lparr>flight_id = ''x'', fl_date = Date 2020 1 1, carrier = '' aa '', origin = ''ewr'',
      dest = ''JFK'', crs_dep_time = 900, dep_delay = Some (FFin 5), arr_delay = None,
      cancelled = 0, diverted = 0, distance = None\<rparr>
   = Inr \<lparr>flight_id = ''x'', fl_date = Date 2020 1 1, carrier = ''AA'', origin = ''EWR'',
      dest = ''JFK'', crs_dep_time = 900, dep_delay = Some (FFin 5), arr_delay = None,
      cancelled = 0, diverted = 0, distance = None\<rparr>"
    by code_simp
  show ?thesis
    using CleanFlight_validate_idempotent
      [of "\<lparr>flight_id = ''x'', fl_date = Date 2020 1 1, carrier = '' aa '', origin = ''ewr'',
      dest = ''JFK'', crs_dep_time = 900, dep_delay = Some (FFin 5), arr_delay = None,
      cancelled = 0, diverted = 0, distance = None\<rparr>"
          "\<lparr>flight_id = ''x'', fl_date = Date 2020 1 1, carrier = ''AA'', origin = ''EWR'',
      dest = ''JFK'', crs_dep_time = 900, dep_delay = Some (FFin 5), arr_delay = None,
      cancelled = 0, diverted = 0, distance = None\<rparr>"] a v
    by simp
qed

section \<open>The coercions \<open>to_int\<close> and \<open>to_float\<close>\<close>

lemma try_or_none_simps [simp]: "try_or_none (Inl e) = None" "try_or_none (Inr v) = Some v"
  by (simp_all add: try_or_none_def)

lemma try_or_none_iff [simp]:
  "try_or_none r = Some v \<longleftrightarrow> r = Inr v" "try_or_none r = None \<longleftrightarrow> (\<exists>e. r = Inl e)"
  by (cases r; simp)+

lemma to_int_Some_iff:
  "to_int B x = Some n \<longleftrightarrow>
     x \<noteq> VNone \<and> x \<noteq> VFloat FNaN \<and> (\<exists>f. py_float B x = Inr f \<and> py_int_of_float f = Inr n)"
  by (auto simp: to_int_def simp del: py_float.simps py_int_of_float.simps split: sum.splits)

lemma to_float_Some_iff:
  "to_float B x = Some f \<longleftrightarrow> x \<noteq> VNone \<and> x \<noteq> VFloat FNaN \<and> py_float B x = Inr f"
  by (auto simp: to_float_def simp del: py_float.simps split: sum.splits)

lemma to_int_None_iff:
  "to_int B x = None \<longleftrightarrow>
     x = VNone \<or> x = VFloat FNaN \<or> (\<exists>e. py_float B x = Inl e)
     \<or> (\<exists>f e. py_float B x = Inr f \<and> py_int_of_float f = Inl e)"
  by (auto simp: to_int_def simp del: py_float.simps py_int_of_float.simps split: sum.splits)

lemma to_float_None_iff:
  "to_float B x = None \<longleftrightarrow> x = VNone \<or> x = VFloat FNaN \<or> (\<exists>e. py_float B x = Inl e)"
  by (auto simp: to_float_def simp del: py_float.simps split: sum.splits)

lemma py_int_of_float_Inr_iff:
  "py_int_of_float f = Inr n \<longleftrightarrow>
     (f = FNegZero \<and> n = 0) \<or> (\<exists>q. f = FFin q \<and> n = (if 0 \<le> q then \<lfloor>q\<rfloor> else \<lceil>q\<rceil>))"
  by (cases f) auto


text \<open>
  Claim C9. \<open>to_int\<close> and \<open>to_float\<close> never raise: whatever \<open>float\<close> or \<open>int\<close>
  raises is caught, and the result is \<open>None\<close> (never zero). \<open>to_int\<close> returns \<open>n\<close>
  exactly when the input is neither \<open>None\<close> nor a float NaN, \<open>float\<close> of it succeeds
  and \<open>n\<close> is the truncation of that float; it returns \<open>None\<close> exactly on \<open>None\<close>, on
  NaN, when \<open>float\<close> fails, or when the float has no integer (NaN, infinity).
  \<open>to_float\<close> likewise returns the parsed float or \<open>None\<close>. On numeric input: an
  integer up to \<open>2^53\<close> in magnitude comes back unchanged from \<open>to_int\<close> and as the same
  number from \<open>to_float\<close> (beyond that the double rounding decides), a finite float comes
  back unchanged from \<open>to_float\<close> and truncated toward zero from \<open>to_int\<close>.
\<close>

theorem coercion_total:
  "(to_int B x = Some n \<longleftrightarrow>
      x \<noteq> VNone \<and> x \<noteq> VFloat FNaN \<and> (\<exists>f. py_float B x = Inr f \<and> py_int_of_float f = Inr n))
   \<and> (to_int B x = None \<longleftrightarrow>
      x = VNone \<or> x = VFloat FNaN \<or> (\<exists>e. py_float B x = Inl e)
      \<or> (\<exists>f e. py_float B x = Inr f \<and> py_int_of_float f = Inl e))
   \<and> (py_int_of_float f = Inr n \<longleftrightarrow>
      (f = FNegZero \<and> n = 0) \<or> (\<exists>q. f = FFin q \<and> n = (if 0 \<le> q then \<lfloor>q\<rfloor> else \<lceil>q\<rceil>)))
   \<and> (to_float B x = Some f \<longleftrightarrow> x \<noteq> VNone \<and> x \<noteq> VFloat FNaN \<and> py_float B x = Inr f)
   \<and> (to_float B x = None \<longleftrightarrow> x = VNone \<or> x = VFloat FNaN \<or> (\<exists>e. py_float B x = Inl e))
   \<and> to_int B (VInt k) = (if \<bar>k\<bar> \<le> 2 ^ 53 then Some k
                           else (case float_of_bigint B k of None \<Rightarrow> None
                                 | Some g \<Rightarrow> try_or_none (py_int_of_float g)))
   \<and> to_int B (VFloat (FFin q)) = Some (if 0 \<le> q then \<lfloor>q\<rfloor> else \<lceil>q\<rceil>)
   \<and> to_float B (VFloat (FFin q)) = Some (FFin q)
   \<and> to_float B (VInt k) = (if \<bar>k\<bar> \<le> 2 ^ 53 then Some (FFin (of_int k)) else float_of_bigint B k)"
proof -
  have i: "to_int B (VInt k) = (if \<bar>k\<bar> \<le> 2 ^ 53 then Some k
                           else (case float_of_bigint B k of None \<Rightarrow> None
                                 | Some g \<Rightarrow> try_or_none (py_int_of_float g)))"
    by (auto simp: to_int_def split: option.splits)
  have j: "to_int B (VFloat (FFin q)) = Some (if 0 \<le> q then \<lfloor>q\<rfloor> else \<lceil>q\<rceil>)"
    "to_float B (VFloat (FFin q)) = Some (FFin q)"
    by (simp_all add: to_int_def to_float_def)
  have k: "to_float B (VInt k) = (if \<bar>k\<bar> \<le> 2 ^ 53 then Some (FFin (of_int k)) else float_of_bigint B k)"
    by (auto simp: to_float_def split: option.splits)
  show ?thesis
    using to_int_Some_iff [of B x n] to_int_None_iff [of B x] py_int_of_float_Inr_iff [of f n]
      to_float_Some_iff [of B x f] to_float_None_iff [of B x] i j k
    by blast
qed

theorem coercion_total_witness:
  "\<forall>B. to_int B (VInt 930) = Some 930 \<and> to_int B VNone = None \<and> to_int B (VFloat FNaN) = None
     \<and> to_int B (VFloat (FFin (37 / 10))) = Some 3 \<and> to_int B (VFloat (FFin (- 37 / 10))) = Some (- 3)
     \<and> to_float B (VFloat (FFin (5 / 2))) = Some (FFin (5 / 2)) \<and> to_float B VNone = None
     \<and> to_float B (VInt 7) = Some (FFin 7) \<and> to_int B (VDate (Date 2020 1 1)) = None"
proof
  fix B
  have d: "\<exists>e. py_float B (VDate (Date 2020 1 1)) = Inl e" by simp
  have fl: "\<lfloor>37 / 10 :: rat\<rfloor> = 3" by (rule floor_unique) simp_all
  have ce: "\<lceil>- (37 / 10) :: rat\<rceil> = - 3" by (rule ceiling_unique) simp_all
  show "to_int B (VInt 930) = Some 930 \<and> to_int B VNone = None \<and> to_int B (VFloat FNaN) = None
     \<and> to_int B (VFloat (FFin (37 / 10))) = Some 3 \<and> to_int B (VFloat (FFin (- 37 / 10))) = Some (- 3)
     \<and> to_float B (VFloat (FFin (5 / 2))) = Some (FFin (5 / 2)) \<and> to_float B VNone = None
     \<and> to_float B (VInt 7) = Some (FFin 7) \<and> to_int B (VDate (Date 2020 1 1)) = None"
    using coercion_total [of B VNone 0 FNaN 930 "37 / 10"]
      coercion_total [of B "VFloat FNaN" 0 FNaN 7 "- 37 / 10"]
      coercion_total [of B "VDate (Date 2020 1 1)" 0 FNaN 7 "5 / 2"] d fl ce
    by simp
qed

section \<open>The batch loader: what is written and what is counted\<close>




lemma merge_row_keyed: "keyed row \<Longrightarrow> merge_row st row = Inr (upsert st row)"
  by (auto simp: keyed_def merge_row_def upsert_def)

lemma merge_row_Inr: "merge_row st row = Inr st' \<Longrightarrow> keyed row \<and> st' = upsert st row"
  by (auto simp: keyed_def merge_row_def upsert_def split: option.splits)

lemma run_cypher_keyed: "list_all keyed rows \<Longrightarrow> run_cypher st rows = Inr (foldl upsert st rows)"
  by (induction rows arbitrary: st) (simp_all add: merge_row_keyed)

lemma run_cypher_Inr:
  "run_cypher st rows = Inr st' \<Longrightarrow> list_all keyed rows \<and> st' = foldl upsert st rows"
proof (induction rows arbitrary: st)
  case Nil
  then show ?case by simp
next
  case (Cons row rows)
  then obtain st1 where m: "merge_row st row = Inr st1" and r: "run_cypher st1 rows = Inr st'"
    by (auto split: sum.splits)
  from merge_row_Inr [OF m] Cons.IH [OF r] show ?case by simp
qed












section \<open>The upsert statement is idempotent\<close>

lemma set_props_Nil [simp]: "set_props p [] = p"
  by (simp add: set_props_def)

lemma set_props_twice: "set_props (set_props p r1) r2 = set_props p (r2 @ r1)"
  by (auto simp: set_props_def fun_eq_iff map_add_def split: option.splits)

lemma set_props_idem: "set_props (set_props p r) r = set_props p r"
  by (auto simp: set_props_def fun_eq_iff split: option.splits)

lemma foldl_set_props: "foldl set_props p rs = set_props p (concat (rev rs))"
  by (induction rs arbitrary: p) (simp_all add: set_props_twice)

lemma labels_foldl_write_node:
  "labels (foldl write_node n rs) = (if rs = [] then labels n else insert ''Flight'' (labels n))"
  by (induction rs arbitrary: n) (auto simp: write_node_def)

lemma props_foldl_write_node: "props (foldl write_node n rs) = foldl set_props (props n) rs"
  by (induction rs arbitrary: n) (auto simp: write_node_def)

lemma foldl_write_node_idem:
  "foldl write_node (foldl write_node n rs) rs = foldl write_node n rs"
proof (rule node.equality)
  show "labels (foldl write_node (foldl write_node n rs) rs) = labels (foldl write_node n rs)"
    by (auto simp: labels_foldl_write_node)
  show "props (foldl write_node (foldl write_node n rs) rs) = props (foldl write_node n rs)"
    by (simp add: props_foldl_write_node foldl_set_props set_props_idem)
  show "node.more (foldl write_node (foldl write_node n rs) rs) = node.more (foldl write_node n rs)"
    by simp
qed

lemma match_or_create_Some [simp]: "match_or_create (st(k \<mapsto> n)) k = n"
  by (simp add: match_or_create_def)

lemma foldl_upsert_key:
  "(foldl upsert st rows) k =
     (if filter (\<lambda>r. row_key r = Some k) rows = [] then st k
      else Some (foldl write_node (match_or_create st k) (filter (\<lambda>r. row_key r = Some k) rows)))"
proof (induction rows rule: rev_induct)
  case Nil
  then show ?case by simp
next
  case (snoc r rows)
  let ?S = "foldl upsert st rows"
  let ?rs = "filter (\<lambda>r. row_key r = Some k) rows"
  show ?case
  proof (cases "row_key r = Some k")
    case True
    have m: "match_or_create ?S k = foldl write_node (match_or_create st k) ?rs"
      using snoc.IH by (auto simp: match_or_create_def)
    have u: "upsert ?S r k = Some (write_node (match_or_create ?S k) r)"
      using True by (simp add: upsert_def)
    show ?thesis using True m u by simp
  next
    case False
    then have "upsert ?S r k = ?S k" by (auto simp: upsert_def split: option.splits)
    then show ?thesis using False snoc.IH by simp
  qed
qed

lemma foldl_upsert_idem: "foldl upsert (foldl upsert st rows) rows = foldl upsert st rows"
proof
  fix k
  let ?rs = "filter (\<lambda>r. row_key r = Some k) rows"
  show "foldl upsert (foldl upsert st rows) rows k = foldl upsert st rows k"
  proof (cases "?rs = []")
    case True
    then show ?thesis by (simp add: foldl_upsert_key)
  next
    case False
    have "match_or_create (foldl upsert st rows) k = foldl write_node (match_or_create st k) ?rs"
      using False by (simp add: match_or_create_def foldl_upsert_key)
    then show ?thesis using False
      by (simp add: foldl_upsert_key [of "foldl upsert st rows"] foldl_upsert_key [of st]
            foldl_write_node_idem)
  qed
qed

lemma dom_foldl_upsert:
  "dom (foldl upsert st rows) = dom st \<union> {k. \<exists>r\<in>set rows. row_key r = Some k}"
  by (auto simp: dom_def foldl_upsert_key filter_empty_conv split: if_splits)


text \<open>
  Claim C6. The batch upsert is idempotent on the store: when the statement succeeds on
  a batch and leaves the store \<open>st1\<close>, running it again on the same batch succeeds and
  leaves \<open>st1\<close>, so the entities and their count are the same; the entities of \<open>st1\<close>
  are those of the store before and one per \<open>flight_id\<close> of the batch. The statement
  succeeds on every batch whose rows carry a string \<open>flight_id\<close>.
\<close>

theorem run_cypher_idempotent:
  "(run_cypher st rows = Inr st1 \<longrightarrow>
      run_cypher st1 rows = Inr st1
      \<and> dom st1 = dom st \<union> {k. \<exists>r\<in>set rows. row_key r = Some k})
   \<and> (list_all keyed rows \<longrightarrow> (\<exists>st'. run_cypher st rows = Inr st'))"
proof (intro conjI impI)
  assume r: "run_cypher st rows = Inr st1"
  from run_cypher_Inr [OF r] have k: "list_all keyed rows" and e: "st1 = foldl upsert st rows"
    by simp_all
  show "run_cypher st1 rows = Inr st1"
    by (simp add: run_cypher_keyed [OF k] e foldl_upsert_idem)
  show "dom st1 = dom st \<union> {k. \<exists>r\<in>set rows. row_key r = Some k}"
    by (simp add: e dom_foldl_upsert)
next
  assume "list_all keyed rows"
  then show "\<exists>st'. run_cypher st rows = Inr st'" by (simp add: run_cypher_keyed)
qed

theorem run_cypher_idempotent_witness:
  "\<exists>st1. run_cypher Map.empty
            [[(''flight_id'', VStr ''a''), (''crs_dep_time'', VInt 900)],
             [(''flight_id'', VStr ''b''), (''crs_dep_time'', VInt 1000)],
             [(''flight_id'', VStr ''a''), (''crs_dep_time'', VNone)]] = Inr st1
        \<and> run_cypher st1
            [[(''flight_id'', VStr ''a''), (''crs_dep_time'', VInt 900)],
             [(''flight_id'', VStr ''b''), (''crs_dep_time'', VInt 1000)],
             [(''flight_id'', VStr ''a''), (''crs_dep_time'', VNone)]] = Inr st1
        \<and> dom st1 = {''a'', ''b''} \<and> card (dom st1) = 2"
proof -
  let ?rows = "[[(''flight_id'', VStr ''a''), (''crs_dep_time'', VInt 900)],
             [(''flight_id'', VStr ''b''), (''crs_dep_time'', VInt 1000)],
             [(''flight_id'', VStr ''a''), (''crs_dep_time'', VNone)]]"
  have k: "list_all keyed ?rows" by code_simp
  have rk: "{k. \<exists>r\<in>set ?rows. row_key r = Some k} = {''a'', ''b''}"
    by (auto simp: row_key_def)
  from run_cypher_idempotent [of Map.empty ?rows] k obtain st1 where
    r: "run_cypher Map.empty ?rows = Inr st1" by blast
  from run_cypher_idempotent [of Map.empty ?rows st1] r rk
  have "run_cypher st1 ?rows = Inr st1" "dom st1 = {''a'', ''b''}" by simp_all
  then show ?thesis using r by auto
qed


section \<open>No schema validation in the load\<close>










section \<open>The key of the load path\<close>










end
